theory Spec2Isabelle
  imports Complex_Main "HOL-Library.Extended_Nat"
begin

section \<open>Crossover operations of the genetic algorithm (ga/crossover.py)\<close>

subsection \<open>Exceptions\<close>

text \<open>
  Values of \<open>exn\<close> stand for instances of Python's \<open>Exception\<close> class, the ones that
  the handler \<^verbatim>\<open>except Exception as ex\<close> of \<open>Crossover.__call__\<close> catches.
  \<open>ValueError\<close> is what \<open>max\<close> and \<open>min\<close> raise on an empty sequence and
  \<open>AttributeError\<close> is what \<open>getattr\<close> raises on an unknown name; \<open>Raised\<close> is any
  other exception, tagged by its message.
\<close>

datatype exn = ValueError | AttributeError | TypeError | Raised string

subsection \<open>Populations\<close>

text \<open>
  Modelled from the spec: the class \<open>Population\<close> (ga/population.py) is not among the
  sources. The spec describes the offspring population as a set into which results are
  collected and from which the members of the parent population are removed by set
  difference. A population is the list of its members, in the order of insertion;
  \<open>add_members\<close> adds the molecules that the population does not hold yet and
  \<open>population_minus\<close> (the operator \<^verbatim>\<open>-=\<close>) keeps the members that are not in the other
  population.
\<close>

type_synonym 'm population = "'m list"

definition add_members :: "'m population \<Rightarrow> 'm list \<Rightarrow> 'm population" where
  "add_members pop ms = fold (\<lambda>m acc. if m \<in> set acc then acc else acc @ [m]) ms pop"

definition population_minus :: "'m population \<Rightarrow> 'm population \<Rightarrow> 'm population" where
  "population_minus pop other = filter (\<lambda>m. m \<notin> set other) pop"

subsection \<open>Python's \<open>max\<close> and \<open>min\<close> over (count, key) tuples\<close>

text \<open>
  Tuples compare lexicographically: the first position at which the two tuples differ
  decides, and equal tuples are neither greater nor less. The keys are objects with
  rich comparison, a type of class \<open>ord\<close>.
\<close>

definition tuple_gt :: "int \<times> 'b::ord \<Rightarrow> int \<times> 'b \<Rightarrow> bool" where
  "tuple_gt x y =
     (if fst x \<noteq> fst y then fst y < fst x
      else if snd x \<noteq> snd y then snd y < snd x
      else False)"

definition tuple_lt :: "int \<times> 'b::ord \<Rightarrow> int \<times> 'b \<Rightarrow> bool" where
  "tuple_lt x y =
     (if fst x \<noteq> fst y then fst x < fst y
      else if snd x \<noteq> snd y then snd x < snd y
      else False)"

text \<open>
  \<open>max\<close> keeps the first item and replaces it by every later item that is strictly
  greater; \<open>min\<close> likewise with strictly less. Both raise \<open>ValueError\<close> on an empty
  sequence.
\<close>

fun py_max :: "(int \<times> 'b::ord) list \<Rightarrow> exn + (int \<times> 'b)" where
  "py_max [] = Inl ValueError"
| "py_max (x # xs) = Inr (fold (\<lambda>item m. if tuple_gt item m then item else m) xs x)"

fun py_min :: "(int \<times> 'b::ord) list \<Rightarrow> exn + (int \<times> 'b)" where
  "py_min [] = Inl ValueError"
| "py_min (x # xs) = Inr (fold (\<lambda>item m. if tuple_lt item m then item else m) xs x)"

subsection \<open>Cages\<close>

text \<open>
  The attributes of a parent cage that \<open>bb_lk_exchange\<close> reads: \<open>bb_counter\<close>, a
  \<open>Counter\<close> from building blocks to the number of times each occurs in the cage, as
  the list of its (key, count) items in iteration order, and \<open>topology\<close>.
\<close>

record ('b, 't) cage =
  bb_counter :: "('b \<times> int) list"
  topology :: 't

text \<open>\<^verbatim>\<open>zip(counter.values(), counter.keys())\<close>: the (count, key) tuples in iteration order.\<close>

definition counter_items :: "('b \<times> int) list \<Rightarrow> (int \<times> 'b) list" where
  "counter_items c = zip (map snd c) (map fst c)"

text \<open>
  The constructor \<open>Cage\<close> (molecular/molecules.py) is not among the sources; it is a
  parameter, which may raise. The arguments of every constructor call are recorded,
  in order, so that the number and the content of the constructions can be stated.
\<close>

type_synonym ('b, 't) cage_args = "('b \<times> 'b) \<times> 't"

text \<open>The loop over the topologies (lines 232 to 235), threading the offspring population
  and the recorded constructor calls.\<close>

fun topology_loop ::
  "(('b \<times> 'b) \<Rightarrow> 't \<Rightarrow> exn + 'c) \<Rightarrow> 'b \<Rightarrow> 'b \<Rightarrow> 'b \<Rightarrow> 'b \<Rightarrow> 't list \<Rightarrow>
   'c population \<Rightarrow> ('b, 't) cage_args list \<Rightarrow> ('b, 't) cage_args list \<times> (exn + 'c population)"
where
  "topology_loop Cage c1_lk c1_bb c2_lk c2_bb [] offspring_pop calls = (calls, Inr offspring_pop)"
| "topology_loop Cage c1_lk c1_bb c2_lk c2_bb (tp # tps) offspring_pop calls =
     (case Cage (c1_lk, c2_bb) tp of
        Inl e \<Rightarrow> (calls @ [((c1_lk, c2_bb), tp)], Inl e)
      | Inr offspring1 \<Rightarrow>
          (case Cage (c2_lk, c1_bb) tp of
             Inl e \<Rightarrow> (calls @ [((c1_lk, c2_bb), tp), ((c2_lk, c1_bb), tp)], Inl e)
           | Inr offspring2 \<Rightarrow>
               topology_loop Cage c1_lk c1_bb c2_lk c2_bb tps
                 (add_members offspring_pop [offspring1, offspring2])
                 (calls @ [((c1_lk, c2_bb), tp), ((c2_lk, c1_bb), tp)])))"

text \<open>
  Lines 217 to 225 read the linker of a cage as the key of the greatest (count, key)
  tuple and its building block as the key of the least one.
\<close>

definition max_key :: "('b::ord \<times> int) list \<Rightarrow> exn + 'b" where
  "max_key c = (case py_max (counter_items c) of Inl e \<Rightarrow> Inl e | Inr (_, k) \<Rightarrow> Inr k)"

definition min_key :: "('b::ord \<times> int) list \<Rightarrow> exn + 'b" where
  "min_key c = (case py_min (counter_items c) of Inl e \<Rightarrow> Inl e | Inr (_, k) \<Rightarrow> Inr k)"

text \<open>
  \<open>Crossover.bb_lk_exchange\<close>: the linker and the building block of each parent are
  read off its \<open>bb_counter\<close>, then the loop runs over the topologies of the first and
  of the second parent, in this order. The result is the list of constructor calls
  made and either the exception raised or the offspring population.
\<close>

definition bb_lk_exchange ::
  "(('b::ord \<times> 'b) \<Rightarrow> 't \<Rightarrow> exn + 'c) \<Rightarrow> ('b, 't) cage \<Rightarrow> ('b, 't) cage \<Rightarrow>
   ('b, 't) cage_args list \<times> (exn + 'c population)"
where
  "bb_lk_exchange Cage macro_mol1 macro_mol2 =
     (case max_key (bb_counter macro_mol1) of
        Inl e \<Rightarrow> ([], Inl e)
      | Inr c1_lk \<Rightarrow>
     (case min_key (bb_counter macro_mol1) of
        Inl e \<Rightarrow> ([], Inl e)
      | Inr c1_bb \<Rightarrow>
     (case max_key (bb_counter macro_mol2) of
        Inl e \<Rightarrow> ([], Inl e)
      | Inr c2_lk \<Rightarrow>
     (case min_key (bb_counter macro_mol2) of
        Inl e \<Rightarrow> ([], Inl e)
      | Inr c2_bb \<Rightarrow>
          topology_loop Cage c1_lk c1_bb c2_lk c2_bb
            [topology macro_mol1, topology macro_mol2] [] []))))"

subsection \<open>The collaborators of \<open>Crossover.__call__\<close>\<close>

text \<open>
  A \<open>FunctionData\<close> instance names a crossover function and holds its keyword
  arguments; a \<open>Crossover\<close> instance holds the attributes set by \<open>__init__\<close>. The
  weights are passed to the sampler as they are, so their type is left open. The number
  of crossovers is a count: \<open>islice\<close> rejects a negative bound with \<open>ValueError\<close>
  before any pair is drawn, and the model covers the bounds it accepts.
\<close>

record 'p func_data =
  name :: string
  params :: 'p

record ('p, 'w) crossover =
  funcs :: "'p func_data list"
  weights :: "'w option"
  num_crossovers :: nat

text \<open>
  \<^verbatim>\<open>population.select('crossover')\<close> is a generator of parent pairs, which ends after
  finitely many pairs or never ends. \<open>islice\<close> draws at most \<open>n\<close> pairs from it and
  never asks for a further one.
\<close>

datatype 'a selection = Finite "'a list" | Unbounded "nat \<Rightarrow> 'a"

fun islice :: "'a selection \<Rightarrow> nat \<Rightarrow> 'a list" where
  "islice (Finite xs) n = take n xs"
| "islice (Unbounded f) n = map f [0..<n]"

fun selection_length :: "'a selection \<Rightarrow> enat" where
  "selection_length (Finite xs) = enat (length xs)"
| "selection_length (Unbounded f) = \<infinity>"

text \<open>
  What \<open>__call__\<close> uses and the module does not define:
  \<^item> \<open>select\<close>: the parent-selection generator of the population;
  \<^item> \<open>choice\<close>: \<^verbatim>\<open>np.random.choice(self.funcs, p=self.weights)\<close>, reading and advancing the
    state of the random generator; it may raise;
  \<^item> \<open>getattr\<close>: \<^verbatim>\<open>getattr(self, func_data.name)\<close>, the lookup of a crossover method by
    name, which raises for an unknown name; a crossover method takes the two parents
    and the keyword arguments and returns its offspring or raises;
  \<^item> \<open>mol_name\<close>: the attribute \<open>name\<close> of a molecule.
\<close>

record ('m, 'p, 'w, 'r) env =
  select :: "'m population \<Rightarrow> ('m \<times> 'm) selection"
  choice :: "'r \<Rightarrow> 'p func_data list \<Rightarrow> 'w option \<Rightarrow> exn + ('p func_data \<times> 'r)"
  getattr :: "string \<Rightarrow> exn + ('m \<Rightarrow> 'm \<Rightarrow> 'p \<Rightarrow> exn + 'm list)"
  mol_name :: "'m \<Rightarrow> string"

text \<open>
  The records written by \<open>logger\<close>: the \<open>info\<close> line of every iteration (its number and
  \<open>num_crossovers\<close>), the \<open>debug\<close> line of an offspring with a name, and the \<open>error\<close>
  line of a failed crossover, whose message is made of the name of the function and
  of the names of the parents.
\<close>

datatype log_record = Info nat nat | Debug string | Error string "string list"

text \<open>
  One entry per iteration of the loop: the parents drawn, the \<open>FunctionData\<close> sampled
  and what the invocation \<^verbatim>\<open>func(*parents, **func_data.params)\<close> gave.
\<close>

record ('m, 'p) attempt =
  parents :: "'m \<times> 'm"
  func_data :: "'p func_data"
  outcome :: "exn + 'm list"

text \<open>
  The state of the loop: the local variables \<open>offspring_pop\<close> and \<open>counter\<close>, the state
  of the random generator and what has been logged. The field \<open>attempts\<close> is no variable
  of the source: it keeps the record of the iterations made so far, in order.
\<close>

record ('m, 'p, 'r) loop_state =
  offspring_pop :: "'m population"
  counter :: "'m \<rightharpoonup> nat"
  rng :: 'r
  logged :: "log_record list"
  attempts :: "('m, 'p) attempt list"

text \<open>\<^verbatim>\<open>counter.update(parents)\<close> counts every element of the tuple once.\<close>

definition counter_incr :: "('m \<rightharpoonup> nat) \<Rightarrow> 'm \<Rightarrow> ('m \<rightharpoonup> nat)" where
  "counter_incr c m = c(m \<mapsto> Suc (case c m of None \<Rightarrow> 0 | Some k \<Rightarrow> k))"

definition update_counter :: "('m \<rightharpoonup> nat) \<Rightarrow> 'm \<times> 'm \<Rightarrow> ('m \<rightharpoonup> nat)" where
  "update_counter c ps = counter_incr (counter_incr c (fst ps)) (snd ps)"

text \<open>The \<open>debug\<close> lines of lines 140 to 143: one for every offspring whose name is not empty.\<close>

definition cache_log :: "('m \<Rightarrow> string) \<Rightarrow> 'm list \<Rightarrow> log_record list" where
  "cache_log nm offspring = map (\<lambda>m. Debug (nm m)) (filter (\<lambda>m. nm m \<noteq> []) offspring)"

text \<open>
  The body of the loop (lines 126 to 156) for the \<open>i\<close>-th pair. Sampling and lookup are
  outside the \<open>try\<close> block, so what they raise leaves \<open>__call__\<close>; what the crossover
  function raises is logged and the iteration ends.
\<close>

definition loop_body ::
  "('m, 'p, 'w, 'r) env \<Rightarrow> ('p, 'w) crossover \<Rightarrow> nat \<Rightarrow> 'm \<times> 'm \<Rightarrow>
   ('m, 'p, 'r) loop_state \<Rightarrow> exn + ('m, 'p, 'r) loop_state"
where
  "loop_body E self i ps st =
     (let st1 = st\<lparr>logged := logged st @ [Info i (num_crossovers self)],
                    counter := update_counter (counter st) ps\<rparr>
      in case choice E (rng st1) (funcs self) (weights self) of
           Inl e \<Rightarrow> Inl e
         | Inr (fd, r) \<Rightarrow>
             (case getattr E (name fd) of
                Inl e \<Rightarrow> Inl e
              | Inr func \<Rightarrow>
                  (case func (fst ps) (snd ps) (params fd) of
                     Inr offspring \<Rightarrow>
                       Inr (st1\<lparr>rng := r,
                                logged := logged st1 @ cache_log (mol_name E) offspring,
                                offspring_pop := add_members (offspring_pop st1) offspring,
                                attempts := attempts st1 @
                                  [\<lparr>parents = ps, func_data = fd, outcome = Inr offspring\<rparr>]\<rparr>)
                   | Inl ex \<Rightarrow>
                       Inr (st1\<lparr>rng := r,
                                logged := logged st1 @
                                  [Error (name fd) [mol_name E (fst ps), mol_name E (snd ps)]],
                                attempts := attempts st1 @
                                  [\<lparr>parents = ps, func_data = fd, outcome = Inl ex\<rparr>]\<rparr>))))"

text \<open>The loop over \<^verbatim>\<open>enumerate(parent_pool, 1)\<close>.\<close>

fun crossover_loop ::
  "('m, 'p, 'w, 'r) env \<Rightarrow> ('p, 'w) crossover \<Rightarrow> (nat \<times> ('m \<times> 'm)) list \<Rightarrow>
   ('m, 'p, 'r) loop_state \<Rightarrow> exn + ('m, 'p, 'r) loop_state"
where
  "crossover_loop E self [] st = Inr st"
| "crossover_loop E self ((i, ps) # rest) st =
     (case loop_body E self i ps st of
        Inl e \<Rightarrow> Inl e
      | Inr st' \<Rightarrow> crossover_loop E self rest st')"

definition enumerate1 :: "'a list \<Rightarrow> (nat \<times> 'a) list" where
  "enumerate1 xs = zip [1..<Suc (length xs)] xs"

text \<open>Lines 164 to 166: every member that is not a key of the counter becomes one, with count 0.\<close>

definition pad_counter :: "('m \<rightharpoonup> nat) \<Rightarrow> 'm population \<Rightarrow> ('m \<rightharpoonup> nat)" where
  "pad_counter c pop =
     fold (\<lambda>member c'. case c' member of None \<Rightarrow> c'(member \<mapsto> 0) | Some _ \<Rightarrow> c') pop c"

text \<open>
  What a call of \<open>__call__\<close> that returns has done: the population returned, the calls
  of \<open>plot_counter\<close> made (counter and path), the log, the attempts and the state of the
  random generator.
\<close>

record ('m, 'p, 'r) call_result =
  returned :: "'m population"
  plot_calls :: "(('m \<rightharpoonup> nat) \<times> string) list"
  final_counter :: "'m \<rightharpoonup> nat"
  final_log :: "log_record list"
  final_attempts :: "('m, 'p) attempt list"
  final_rng :: 'r

text \<open>\<open>Crossover.__call__\<close>, started with the random generator in state \<open>r\<close>.\<close>

definition crossover_call ::
  "('m, 'p, 'w, 'r) env \<Rightarrow> ('p, 'w) crossover \<Rightarrow> 'r \<Rightarrow> 'm population \<Rightarrow> string \<Rightarrow>
   exn + ('m, 'p, 'r) call_result"
where
  "crossover_call E self r population counter_path =
     (let parent_pool = islice (select E population) (num_crossovers self);
          st0 = \<lparr>offspring_pop = [], counter = Map.empty, rng = r, logged = [], attempts = []\<rparr>
      in case crossover_loop E self (enumerate1 parent_pool) st0 of
           Inl e \<Rightarrow> Inl e
         | Inr st \<Rightarrow>
             (let result = population_minus (offspring_pop st) population
              in if counter_path \<noteq> []
                 then (let c = pad_counter (counter st) population
                       in Inr \<lparr>returned = result, plot_calls = [(c, counter_path)],
                               final_counter = c, final_log = logged st,
                               final_attempts = attempts st, final_rng = rng st\<rparr>)
                 else Inr \<lparr>returned = result, plot_calls = [],
                           final_counter = counter st, final_log = logged st,
                           final_attempts = attempts st, final_rng = rng st\<rparr>))"

section \<open>Notions used to state the properties\<close>




text \<open>A constructor that never raises and returns the arguments it was given.\<close>

definition Cage_ok :: "(nat \<times> nat) \<Rightarrow> string \<Rightarrow> exn + ((nat \<times> nat) \<times> string)" where
  "Cage_ok a t = Inr (a, t)"

text \<open>
  An attempt has failed when its invocation raised; the offspring accumulated from the
  successful invocations are those of the attempts that returned, in order.
\<close>

definition failed :: "('m, 'p) attempt \<Rightarrow> bool" where
  "failed a = isl (outcome a)"

definition successes :: "('m, 'p) attempt list \<Rightarrow> 'm list" where
  "successes as = concat (map (\<lambda>a. case outcome a of Inl ex \<Rightarrow> [] | Inr offspring \<Rightarrow> offspring) as)"

text \<open>The \<open>error\<close> and the \<open>info\<close> lines of the log, and the \<open>error\<close> lines that the failed
  attempts of a list give.\<close>

fun is_error :: "log_record \<Rightarrow> bool" where
  "is_error (Error f ns) = True"
| "is_error _ = False"

fun is_info :: "log_record \<Rightarrow> bool" where
  "is_info (Info i n) = True"
| "is_info _ = False"

definition error_records :: "('m \<Rightarrow> string) \<Rightarrow> ('m, 'p) attempt list \<Rightarrow> log_record list" where
  "error_records nm as =
     map (\<lambda>a. Error (name (func_data a)) [nm (fst (parents a)), nm (snd (parents a))])
       (filter failed as)"

text \<open>
  Reading a \<open>Counter\<close>: a key that is absent counts 0. The occurrences of a molecule in
  the pairs drawn count a pair twice when it holds the molecule twice; the pairs that
  contain the molecule count every such pair once.
\<close>

definition count_of :: "('m \<rightharpoonup> nat) \<Rightarrow> 'm \<Rightarrow> nat" where
  "count_of c m = (case c m of None \<Rightarrow> 0 | Some k \<Rightarrow> k)"

definition occurrences :: "'m \<Rightarrow> ('m \<times> 'm) list \<Rightarrow> nat" where
  "occurrences m ps = count_list (concat (map (\<lambda>p. [fst p, snd p]) ps)) m"

definition pairs_containing :: "'m \<Rightarrow> ('m \<times> 'm) list \<Rightarrow> nat" where
  "pairs_containing m ps = length (filter (\<lambda>p. m = fst p \<or> m = snd p) ps)"

text \<open>
  Sampling \<open>n\<close> times in a row from the random generator: the values sampled and the
  state of the generator afterwards.
\<close>

fun sample_n ::
  "('r \<Rightarrow> 'f list \<Rightarrow> 'w option \<Rightarrow> exn + ('f \<times> 'r)) \<Rightarrow> 'f list \<Rightarrow> 'w option \<Rightarrow> 'r \<Rightarrow> nat \<Rightarrow>
   exn + ('f list \<times> 'r)"
where
  "sample_n ch fs w r 0 = Inr ([], r)"
| "sample_n ch fs w r (Suc n) =
     (case ch r fs w of
        Inl e \<Rightarrow> Inl e
      | Inr (fd, r') \<Rightarrow>
          (case sample_n ch fs w r' n of
             Inl e \<Rightarrow> Inl e
           | Inr (fds, r'') \<Rightarrow> Inr (fd # fds, r'')))"

text \<open>
  Sampling and method lookup succeed: whatever the state of the random generator, the
  sampler returns a \<open>FunctionData\<close> and its name is the name of a crossover method.
\<close>

definition dispatch_ok :: "('m, 'p, 'w, 'r) env \<Rightarrow> ('p, 'w) crossover \<Rightarrow> bool" where
  "dispatch_ok E self =
     (\<forall>r. \<exists>fd r' func. choice E r (funcs self) (weights self) = Inr (fd, r') \<and>
                       getattr E (name fd) = Inr func)"

text \<open>The record of one iteration, the state before the loop, and what a run of the loop
  from \<open>st\<close> to \<open>st'\<close> over the numbered pairs \<open>ips\<close> has done, \<open>new\<close> being its attempts.\<close>

definition attempt_of ::
  "'m \<times> 'm \<Rightarrow> 'p func_data \<Rightarrow> ('m \<Rightarrow> 'm \<Rightarrow> 'p \<Rightarrow> exn + 'm list) \<Rightarrow> ('m, 'p) attempt" where
  "attempt_of ps fd func =
     \<lparr>parents = ps, func_data = fd, outcome = func (fst ps) (snd ps) (params fd)\<rparr>"

definition initial_state :: "'r \<Rightarrow> ('m, 'p, 'r) loop_state" where
  "initial_state r = \<lparr>offspring_pop = [], counter = Map.empty, rng = r, logged = [], attempts = []\<rparr>"

definition loop_summary ::
  "('m, 'p, 'w, 'r) env \<Rightarrow> ('p, 'w) crossover \<Rightarrow> (nat \<times> ('m \<times> 'm)) list \<Rightarrow>
   ('m, 'p, 'r) loop_state \<Rightarrow> ('m, 'p, 'r) loop_state \<Rightarrow> ('m, 'p) attempt list \<Rightarrow> bool"
where
  "loop_summary E self ips st st' new =
     (attempts st' = attempts st @ new \<and>
      map parents new = map snd ips \<and>
      set (offspring_pop st') = set (offspring_pop st) \<union> set (successes new) \<and>
      filter is_error (logged st') = filter is_error (logged st) @ error_records (mol_name E) new \<and>
      length (filter is_info (logged st')) = length (filter is_info (logged st)) + length ips \<and>
      counter st' = fold (\<lambda>ps c. update_counter c ps) (map snd ips) (counter st) \<and>
      sample_n (choice E) (funcs self) (weights self) (rng st) (length ips)
        = Inr (map func_data new, rng st') \<and>
      (\<forall>a \<in> set new. \<exists>func. getattr E (name (func_data a)) = Inr func \<and>
          outcome a = func (fst (parents a)) (snd (parents a)) (params (func_data a))))"

subsection \<open>A concrete instance\<close>

text \<open>
  Molecules are natural numbers, named \<open>mol\<close> except for 0, whose name is empty. The
  sampler goes round the list of functions, one step per call, and raises
  \<open>ValueError\<close> on an empty list. There are two crossover methods: \<open>sum\<close> returns the
  sum of the parents and the first parent, \<open>fail\<close> always raises.
\<close>

definition ex_choice :: "nat \<Rightarrow> 'f list \<Rightarrow> 'w option \<Rightarrow> exn + ('f \<times> nat)" where
  "ex_choice r fs w = (if fs = [] then Inl ValueError else Inr (fs ! (r mod length fs), Suc r))"

definition ex_getattr :: "string \<Rightarrow> exn + (nat \<Rightarrow> nat \<Rightarrow> unit \<Rightarrow> exn + nat list)" where
  "ex_getattr s =
     (if s = ''sum'' then Inr (\<lambda>a b p. Inr [a + b, a])
      else if s = ''fail'' then Inr (\<lambda>a b p. Inl (Raised ''failed''))
      else Inl AttributeError)"

definition ex_env :: "(nat \<times> nat) selection \<Rightarrow> (nat, unit, real list, nat) env" where
  "ex_env sel = \<lparr>select = (\<lambda>pop. sel), choice = ex_choice, getattr = ex_getattr,
                mol_name = (\<lambda>m. if m = 0 then [] else ''mol'')\<rparr>"

definition ex_sum :: "unit func_data" where
  "ex_sum = \<lparr>name = ''sum'', params = ()\<rparr>"

definition ex_fail :: "unit func_data" where
  "ex_fail = \<lparr>name = ''fail'', params = ()\<rparr>"

definition ex_self :: "unit func_data list \<Rightarrow> nat \<Rightarrow> (unit, real list) crossover" where
  "ex_self fs n = \<lparr>funcs = fs, weights = None, num_crossovers = n\<rparr>"

section \<open>Properties of \<open>max\<close> and \<open>min\<close>\<close>


















subsection \<open>Properties of \<open>bb_lk_exchange\<close>\<close>


text \<open>
  Claim C6. A call of \<open>bb_lk_exchange\<close> that returns has constructed exactly four
  cages, the pair \<open>(c1_lk, c2_bb)\<close>, \<open>(c2_lk, c1_bb)\<close> for the topology of the first
  parent and then for the topology of the second one; the topologies are not
  deduplicated, so for equal topologies the same pair of constructions is made twice.
\<close>

theorem bb_lk_exchange_four_constructions:
  assumes "bb_lk_exchange Cage macro_mol1 macro_mol2 = (calls, Inr pop)"
  shows "\<exists>c1_lk c1_bb c2_lk c2_bb.
           max_key (bb_counter macro_mol1) = Inr c1_lk \<and>
           min_key (bb_counter macro_mol1) = Inr c1_bb \<and>
           max_key (bb_counter macro_mol2) = Inr c2_lk \<and>
           min_key (bb_counter macro_mol2) = Inr c2_bb \<and>
           calls = [((c1_lk, c2_bb), topology macro_mol1), ((c2_lk, c1_bb), topology macro_mol1),
                    ((c1_lk, c2_bb), topology macro_mol2), ((c2_lk, c1_bb), topology macro_mol2)] \<and>
           length calls = 4 \<and>
           (topology macro_mol1 = topology macro_mol2 \<longrightarrow>
              calls = [((c1_lk, c2_bb), topology macro_mol1), ((c2_lk, c1_bb), topology macro_mol1)] @
                      [((c1_lk, c2_bb), topology macro_mol1), ((c2_lk, c1_bb), topology macro_mol1)])"
  using assms
  by (auto simp: bb_lk_exchange_def split: sum.splits)

lemma topology_loop_calls:
  "set (fst (topology_loop Cage c1_lk c1_bb c2_lk c2_bb tps pop calls))
     \<subseteq> set calls \<union> {((c1_lk, c2_bb), t) | t. t \<in> set tps} \<union> {((c2_lk, c1_bb), t) | t. t \<in> set tps}"
proof (induction tps arbitrary: pop calls)
  case Nil
  show ?case by simp
next
  case (Cons tp tps)
  show ?case
  proof (cases "Cage (c1_lk, c2_bb) tp")
    case (Inl e)
    then show ?thesis by auto
  next
    case o1: (Inr offspring1)
    show ?thesis
    proof (cases "Cage (c2_lk, c1_bb) tp")
      case (Inl e)
      with o1 show ?thesis by auto
    next
      case (Inr offspring2)
      with o1 Cons.IH [of "add_members pop [offspring1, offspring2]"
                          "calls @ [((c1_lk, c2_bb), tp), ((c2_lk, c1_bb), tp)]"]
      show ?thesis by auto
    qed
  qed
qed

text \<open>
  Claim C5, as amended. Every cage that \<open>bb_lk_exchange\<close> constructs is built from
  the linker of one parent and the building block of the other; when the parents have
  different linkers and different building blocks, no constructed cage has the linker
  and the building block of one and the same parent.
\<close>

theorem bb_lk_exchange_offspring_cross:
  assumes "max_key (bb_counter macro_mol1) = Inr c1_lk"
      and "min_key (bb_counter macro_mol1) = Inr c1_bb"
      and "max_key (bb_counter macro_mol2) = Inr c2_lk"
      and "min_key (bb_counter macro_mol2) = Inr c2_bb"
      and "(args, t) \<in> set (fst (bb_lk_exchange Cage macro_mol1 macro_mol2))"
  shows "(args = (c1_lk, c2_bb) \<or> args = (c2_lk, c1_bb)) \<and>
         (c1_lk \<noteq> c2_lk \<and> c1_bb \<noteq> c2_bb \<longrightarrow> args \<noteq> (c1_lk, c1_bb) \<and> args \<noteq> (c2_lk, c2_bb))"
proof -
  have "bb_lk_exchange Cage macro_mol1 macro_mol2 =
          topology_loop Cage c1_lk c1_bb c2_lk c2_bb
            [topology macro_mol1, topology macro_mol2] [] []"
    using assms(1-4) by (simp add: bb_lk_exchange_def)
  with assms(5) topology_loop_calls [of Cage c1_lk c1_bb c2_lk c2_bb
      "[topology macro_mol1, topology macro_mol2]" "[]" "[]"]
  have "args = (c1_lk, c2_bb) \<or> args = (c2_lk, c1_bb)" by auto
  then show ?thesis by auto
qed

text \<open>
  Claim C5, as stated, fails for parents with the same linker: the first offspring has
  the linker and the building block of the second parent.
\<close>

theorem bb_lk_exchange_shared_linker:
  "max_key (bb_counter \<lparr>bb_counter = [(9::nat, 6), (2, 4)], topology = ''B''\<rparr>) = Inr 9 \<and>
   min_key (bb_counter \<lparr>bb_counter = [(9::nat, 6), (2, 4)], topology = ''B''\<rparr>) = Inr 2 \<and>
   ((9, 2), ''A'') \<in> set (fst (bb_lk_exchange Cage_ok
       \<lparr>bb_counter = [(9::nat, 6), (1, 4)], topology = ''A''\<rparr>
       \<lparr>bb_counter = [(9::nat, 6), (2, 4)], topology = ''B''\<rparr>))"
  by (simp add: bb_lk_exchange_def max_key_def min_key_def counter_items_def
      tuple_gt_def tuple_lt_def Cage_ok_def)

subsection \<open>The properties of \<open>bb_lk_exchange\<close> at concrete cages\<close>


theorem bb_lk_exchange_four_constructions_witness:
  "bb_lk_exchange Cage_ok \<lparr>bb_counter = [(3::nat, 4), (7, 4)], topology = ''A''\<rparr>
       \<lparr>bb_counter = [(5::nat, 6), (2, 4)], topology = ''A''\<rparr> =
     ([((7, 2), ''A''), ((5, 3), ''A''), ((7, 2), ''A''), ((5, 3), ''A'')],
      Inr [((7, 2), ''A''), ((5, 3), ''A'')]) \<and>
   (\<exists>c1_lk c1_bb c2_lk c2_bb.
      max_key [(3::nat, 4), (7, 4)] = Inr c1_lk \<and> min_key [(3::nat, 4), (7, 4)] = Inr c1_bb \<and>
      max_key [(5::nat, 6), (2, 4)] = Inr c2_lk \<and> min_key [(5::nat, 6), (2, 4)] = Inr c2_bb \<and>
      [((7, 2), ''A''), ((5, 3), ''A''), ((7, 2), ''A''), ((5, 3), ''A'')] =
        [((c1_lk, c2_bb), ''A''), ((c2_lk, c1_bb), ''A''),
         ((c1_lk, c2_bb), ''A''), ((c2_lk, c1_bb), ''A'')])"
proof -
  have h: "bb_lk_exchange Cage_ok \<lparr>bb_counter = [(3::nat, 4), (7, 4)], topology = ''A''\<rparr>
       \<lparr>bb_counter = [(5::nat, 6), (2, 4)], topology = ''A''\<rparr> =
     ([((7, 2), ''A''), ((5, 3), ''A''), ((7, 2), ''A''), ((5, 3), ''A'')],
      Inr [((7, 2), ''A''), ((5, 3), ''A'')])"
    by (simp add: bb_lk_exchange_def max_key_def min_key_def counter_items_def
        tuple_gt_def tuple_lt_def Cage_ok_def add_members_def)
  from bb_lk_exchange_four_constructions [OF h] h show ?thesis by simp
qed

theorem bb_lk_exchange_offspring_cross_witness:
  "max_key (bb_counter \<lparr>bb_counter = [(3::nat, 4), (7, 4)], topology = ''A''\<rparr>) = Inr 7 \<and>
   min_key (bb_counter \<lparr>bb_counter = [(3::nat, 4), (7, 4)], topology = ''A''\<rparr>) = Inr 3 \<and>
   max_key (bb_counter \<lparr>bb_counter = [(5::nat, 6), (2, 4)], topology = ''B''\<rparr>) = Inr 5 \<and>
   min_key (bb_counter \<lparr>bb_counter = [(5::nat, 6), (2, 4)], topology = ''B''\<rparr>) = Inr 2 \<and>
   ((5, 3), ''B'') \<in> set (fst (bb_lk_exchange Cage_ok
       \<lparr>bb_counter = [(3::nat, 4), (7, 4)], topology = ''A''\<rparr>
       \<lparr>bb_counter = [(5::nat, 6), (2, 4)], topology = ''B''\<rparr>)) \<and>
   ((5::nat, 3::nat) = (7, 2) \<or> (5::nat, 3::nat) = (5, 3)) \<and>
   (7::nat) \<noteq> 5 \<and> (3::nat) \<noteq> 2 \<and> (5::nat, 3::nat) \<noteq> (7, 3) \<and> (5::nat, 3::nat) \<noteq> (5, 2)"
proof -
  have a: "max_key (bb_counter \<lparr>bb_counter = [(3::nat, 4), (7, 4)], topology = ''A''\<rparr>) = Inr 7"
    and b: "min_key (bb_counter \<lparr>bb_counter = [(3::nat, 4), (7, 4)], topology = ''A''\<rparr>) = Inr 3"
    and c: "max_key (bb_counter \<lparr>bb_counter = [(5::nat, 6), (2, 4)], topology = ''B''\<rparr>) = Inr 5"
    and d: "min_key (bb_counter \<lparr>bb_counter = [(5::nat, 6), (2, 4)], topology = ''B''\<rparr>) = Inr 2"
    by (simp_all add: max_key_def min_key_def counter_items_def tuple_gt_def tuple_lt_def)
  have e: "((5, 3), ''B'') \<in> set (fst (bb_lk_exchange Cage_ok
       \<lparr>bb_counter = [(3::nat, 4), (7, 4)], topology = ''A''\<rparr>
       \<lparr>bb_counter = [(5::nat, 6), (2, 4)], topology = ''B''\<rparr>))"
    by (simp add: bb_lk_exchange_def max_key_def min_key_def counter_items_def
        tuple_gt_def tuple_lt_def Cage_ok_def)
  from bb_lk_exchange_offspring_cross [OF a b c d e] a b c d e show ?thesis by simp
qed

section \<open>Properties of \<open>Crossover.__call__\<close>\<close>

subsection \<open>Populations, the loop and the counter\<close>

lemma set_add_members: "set (add_members pop ms) = set pop \<union> set ms"
  unfolding add_members_def
  by (induction ms arbitrary: pop) auto

lemma set_population_minus: "set (population_minus pop other) = set pop - set other"
  by (auto simp: population_minus_def)

lemma filter_error_cache_log: "filter is_error (cache_log nm os) = []"
  by (simp add: cache_log_def filter_empty_conv)

lemma filter_info_cache_log: "filter is_info (cache_log nm os) = []"
  by (simp add: cache_log_def filter_empty_conv)

lemma loop_body_Inr:
  assumes "loop_body E self i ps st = Inr st'"
  shows "\<exists>fd func.
           choice E (rng st) (funcs self) (weights self) = Inr (fd, rng st') \<and>
           getattr E (name fd) = Inr func \<and>
           attempts st' = attempts st @ [attempt_of ps fd func] \<and>
           counter st' = update_counter (counter st) ps \<and>
           offspring_pop st' =
             (case func (fst ps) (snd ps) (params fd) of
                Inl ex \<Rightarrow> offspring_pop st
              | Inr offspring \<Rightarrow> add_members (offspring_pop st) offspring) \<and>
           logged st' = logged st @ [Info i (num_crossovers self)] @
             (case func (fst ps) (snd ps) (params fd) of
                Inl ex \<Rightarrow> [Error (name fd) [mol_name E (fst ps), mol_name E (snd ps)]]
              | Inr offspring \<Rightarrow> cache_log (mol_name E) offspring)"
  using assms
  by (auto simp: loop_body_def Let_def attempt_of_def split: sum.splits prod.splits)

lemma loop_body_total:
  assumes "dispatch_ok E self"
  shows "\<exists>st'. loop_body E self i ps st = Inr st'"
proof -
  from assms obtain fd r' func where
    "choice E (rng st) (funcs self) (weights self) = Inr (fd, r')" "getattr E (name fd) = Inr func"
    unfolding dispatch_ok_def by blast
  then show ?thesis
    by (cases "func (fst ps) (snd ps) (params fd)") (simp_all add: loop_body_def Let_def)
qed

lemma crossover_loop_total:
  assumes "dispatch_ok E self"
  shows "\<exists>st'. crossover_loop E self ips st = Inr st'"
proof (induction ips arbitrary: st)
  case Nil
  show ?case by simp
next
  case (Cons ip ips)
  obtain i ps where ip: "ip = (i, ps)" by (cases ip)
  from loop_body_total [OF assms] obtain st1 where "loop_body E self i ps st = Inr st1" by blast
  with Cons [of st1] ip show ?case by simp
qed

lemma successes_Cons:
  "successes (a # as) = (case outcome a of Inl ex \<Rightarrow> [] | Inr offspring \<Rightarrow> offspring) @ successes as"
  by (simp add: successes_def)

lemma error_records_Cons:
  "error_records nm (a # as) =
     (if failed a then [Error (name (func_data a)) [nm (fst (parents a)), nm (snd (parents a))]]
      else []) @ error_records nm as"
  by (simp add: error_records_def)

lemma crossover_loop_Inr:
  assumes "crossover_loop E self ips st = Inr st'"
  shows "\<exists>new. loop_summary E self ips st st' new"
  using assms
proof (induction ips arbitrary: st)
  case Nil
  then have "st' = st" by simp
  then have "loop_summary E self [] st st' []"
    by (simp add: loop_summary_def successes_def error_records_def)
  then show ?case by blast
next
  case (Cons ip ips)
  obtain i ps where ip: "ip = (i, ps)" by (cases ip)
  from Cons.prems ip obtain st1 where
    body: "loop_body E self i ps st = Inr st1" and rest: "crossover_loop E self ips st1 = Inr st'"
    by (auto split: sum.splits)
  from loop_body_Inr [OF body] obtain fd func where
    ch: "choice E (rng st) (funcs self) (weights self) = Inr (fd, rng st1)" and
    ga: "getattr E (name fd) = Inr func" and
    at: "attempts st1 = attempts st @ [attempt_of ps fd func]" and
    co: "counter st1 = update_counter (counter st) ps" and
    op: "offspring_pop st1 =
           (case func (fst ps) (snd ps) (params fd) of
              Inl ex \<Rightarrow> offspring_pop st
            | Inr offspring \<Rightarrow> add_members (offspring_pop st) offspring)" and
    lg: "logged st1 = logged st @ [Info i (num_crossovers self)] @
           (case func (fst ps) (snd ps) (params fd) of
              Inl ex \<Rightarrow> [Error (name fd) [mol_name E (fst ps), mol_name E (snd ps)]]
            | Inr offspring \<Rightarrow> cache_log (mol_name E) offspring)"
    by blast
  from Cons.IH [OF rest] obtain new1 where "loop_summary E self ips st1 st' new1" by blast
  then have
    i1: "attempts st' = attempts st1 @ new1" and
    i2: "map parents new1 = map snd ips" and
    i3: "set (offspring_pop st') = set (offspring_pop st1) \<union> set (successes new1)" and
    i4: "filter is_error (logged st') = filter is_error (logged st1) @ error_records (mol_name E) new1" and
    i5: "length (filter is_info (logged st')) = length (filter is_info (logged st1)) + length ips" and
    i6: "counter st' = fold (\<lambda>ps c. update_counter c ps) (map snd ips) (counter st1)" and
    i7: "sample_n (choice E) (funcs self) (weights self) (rng st1) (length ips)
           = Inr (map func_data new1, rng st')" and
    i8: "\<forall>a \<in> set new1. \<exists>func. getattr E (name (func_data a)) = Inr func \<and>
          outcome a = func (fst (parents a)) (snd (parents a)) (params (func_data a))"
    by (simp_all add: loop_summary_def)
  let ?a = "attempt_of ps fd func"
  let ?new = "?a # new1"
  have sel: "parents ?a = ps" "func_data ?a = fd" "outcome ?a = func (fst ps) (snd ps) (params fd)"
    by (simp_all add: attempt_of_def)
  have c1: "attempts st' = attempts st @ ?new" using i1 at by simp
  have c2: "map parents ?new = map snd (ip # ips)" using i2 ip sel by simp
  have c3: "set (offspring_pop st') = set (offspring_pop st) \<union> set (successes ?new)"
    using i3 op sel
    by (cases "func (fst ps) (snd ps) (params fd)") (auto simp: successes_Cons set_add_members)
  have c4: "filter is_error (logged st') =
              filter is_error (logged st) @ error_records (mol_name E) ?new"
    using i4 lg sel
    by (cases "func (fst ps) (snd ps) (params fd)")
       (simp_all add: error_records_Cons failed_def filter_error_cache_log)
  have c5: "length (filter is_info (logged st')) =
              length (filter is_info (logged st)) + length (ip # ips)"
    using i5 lg
    by (cases "func (fst ps) (snd ps) (params fd)") (simp_all add: filter_info_cache_log)
  have c6: "counter st' = fold (\<lambda>ps c. update_counter c ps) (map snd (ip # ips)) (counter st)"
    using i6 co ip by simp
  have c7: "sample_n (choice E) (funcs self) (weights self) (rng st) (length (ip # ips))
              = Inr (map func_data ?new, rng st')"
    using i7 ch sel by simp
  have c8: "\<forall>a \<in> set ?new. \<exists>func. getattr E (name (func_data a)) = Inr func \<and>
          outcome a = func (fst (parents a)) (snd (parents a)) (params (func_data a))"
    using i8 ga sel by auto
  from c1 c2 c3 c4 c5 c6 c7 c8 have "loop_summary E self (ip # ips) st st' ?new"
    unfolding loop_summary_def by blast
  then show ?case by blast
qed

lemma map_snd_enumerate1: "map snd (enumerate1 xs) = xs"
  by (simp add: enumerate1_def map_snd_zip del: upt_Suc)

lemma length_enumerate1: "length (enumerate1 xs) = length xs"
  by (simp add: enumerate1_def del: upt_Suc)

lemma count_of_empty: "count_of Map.empty m = 0"
  by (simp add: count_of_def)

lemma length_islice:
  "enat (length (islice sel n)) = min (enat n) (selection_length sel)"
  by (cases sel) (simp_all add: min_def)

lemma length_islice_le: "length (islice sel n) \<le> n"
  by (cases sel) simp_all

lemma count_of_incr: "count_of (counter_incr c k) m = count_of c m + (if m = k then 1 else 0)"
  by (simp add: count_of_def counter_incr_def)

lemma count_of_update:
  "count_of (update_counter c ps) m =
     count_of c m + (if m = fst ps then 1 else 0) + (if m = snd ps then 1 else 0)"
  by (simp add: update_counter_def count_of_incr)

lemma count_of_fold:
  "count_of (fold (\<lambda>ps c. update_counter c ps) pss c) m = count_of c m + occurrences m pss"
proof (induction pss arbitrary: c)
  case Nil
  show ?case by (simp add: occurrences_def)
next
  case (Cons ps pss)
  have "occurrences m (ps # pss) =
          (if m = fst ps then 1 else 0) + (if m = snd ps then 1 else 0) + occurrences m pss"
    by (auto simp: occurrences_def)
  with Cons [of "update_counter c ps"] show ?case
    by (simp add: count_of_update)
qed

lemma dom_update_counter: "dom (update_counter c ps) = dom c \<union> {fst ps, snd ps}"
  by (auto simp: update_counter_def counter_incr_def)

lemma dom_fold_counter:
  "dom (fold (\<lambda>ps c. update_counter c ps) pss c) = dom c \<union> fst ` set pss \<union> snd ` set pss"
  by (induction pss arbitrary: c) (auto simp: dom_update_counter)

lemma occurrences_pairs:
  assumes "\<forall>p \<in> set pss. fst p \<noteq> snd p"
  shows "occurrences m pss = pairs_containing m pss"
  using assms
  by (induction pss) (auto simp: occurrences_def pairs_containing_def)

lemma occurrences_0: "occurrences m pss = 0 \<longleftrightarrow> (\<forall>p \<in> set pss. m \<noteq> fst p \<and> m \<noteq> snd p)"
  by (induction pss) (auto simp: occurrences_def)

lemma pad_counter_apply:
  "pad_counter c pop m =
     (case c m of Some k \<Rightarrow> Some k | None \<Rightarrow> if m \<in> set pop then Some 0 else None)"
  unfolding pad_counter_def
proof (induction pop arbitrary: c)
  case Nil
  show ?case by (simp split: option.splits)
next
  case (Cons a pop)
  show ?case
    by (cases "c a") (auto simp: Cons split: option.splits)
qed

lemma count_of_pad: "count_of (pad_counter c pop) m = count_of c m"
  by (simp add: count_of_def pad_counter_apply split: option.splits)

lemma dom_pad_counter: "dom (pad_counter c pop) = dom c \<union> set pop"
  by (auto simp: dom_def pad_counter_apply split: option.splits if_splits)

lemma sample_n_members:
  assumes "sample_n ch fs w r n = Inr (fds, r')"
  shows "\<forall>fd \<in> set fds. \<exists>r1 r2. ch r1 fs w = Inr (fd, r2)"
  using assms
proof (induction n arbitrary: r fds)
  case 0
  then show ?case by simp
next
  case (Suc n)
  from Suc.prems obtain fd r1 fds1 where
    a: "ch r fs w = Inr (fd, r1)" and b: "sample_n ch fs w r1 n = Inr (fds1, r')" and
    c: "fds = fd # fds1"
    by (auto split: sum.splits prod.splits)
  from Suc.IH [OF b] a c show ?case by auto
qed

lemma crossover_call_Inr:
  assumes "crossover_call E self r population counter_path = Inr res"
  shows "\<exists>st. crossover_loop E self
                (enumerate1 (islice (select E population) (num_crossovers self)))
                (initial_state r) = Inr st \<and>
              returned res = population_minus (offspring_pop st) population \<and>
              final_attempts res = attempts st \<and>
              final_log res = logged st \<and>
              final_rng res = rng st \<and>
              final_counter res =
                (if counter_path \<noteq> [] then pad_counter (counter st) population else counter st) \<and>
              plot_calls res =
                (if counter_path \<noteq> [] then [(pad_counter (counter st) population, counter_path)]
                 else [])"
  using assms
  by (auto simp: crossover_call_def initial_state_def Let_def split: sum.splits if_splits)

lemma crossover_call_total:
  assumes "dispatch_ok E self"
  shows "\<exists>res. crossover_call E self r population counter_path = Inr res"
proof -
  from crossover_loop_total [OF assms] obtain st where
    "crossover_loop E self (enumerate1 (islice (select E population) (num_crossovers self)))
       (initial_state r) = Inr st" by blast
  then show ?thesis
    by (simp add: crossover_call_def initial_state_def Let_def)
qed

text \<open>What a returning call has done, in terms of the pairs drawn.\<close>

lemma crossover_call_summary:
  assumes "crossover_call E self r population counter_path = Inr res"
  shows "map parents (final_attempts res) = islice (select E population) (num_crossovers self)"
    and "set (returned res) = set (successes (final_attempts res)) - set population"
    and "filter is_error (final_log res) = error_records (mol_name E) (final_attempts res)"
    and "length (filter is_info (final_log res)) = length (final_attempts res)"
    and "count_of (final_counter res) m =
           occurrences m (islice (select E population) (num_crossovers self))"
    and "sample_n (choice E) (funcs self) (weights self) r (length (final_attempts res))
           = Inr (map func_data (final_attempts res), final_rng res)"
    and "\<forall>a \<in> set (final_attempts res). \<exists>func. getattr E (name (func_data a)) = Inr func \<and>
           outcome a = func (fst (parents a)) (snd (parents a)) (params (func_data a))"
    and "plot_calls res = (if counter_path \<noteq> [] then [(final_counter res, counter_path)] else [])"
    and "counter_path \<noteq> [] \<Longrightarrow> dom (final_counter res) =
           set population \<union> fst ` set (islice (select E population) (num_crossovers self))
             \<union> snd ` set (islice (select E population) (num_crossovers self))"
proof -
  let ?pool = "islice (select E population) (num_crossovers self)"
  from crossover_call_Inr [OF assms] obtain st where
    lp: "crossover_loop E self (enumerate1 ?pool) (initial_state r) = Inr st" and
    re: "returned res = population_minus (offspring_pop st) population" and
    fa: "final_attempts res = attempts st" and
    fl: "final_log res = logged st" and
    fr: "final_rng res = rng st" and
    fc: "final_counter res =
           (if counter_path \<noteq> [] then pad_counter (counter st) population else counter st)" and
    pc: "plot_calls res =
           (if counter_path \<noteq> [] then [(pad_counter (counter st) population, counter_path)]
            else [])"
    by blast
  from crossover_loop_Inr [OF lp] obtain new where
    "loop_summary E self (enumerate1 ?pool) (initial_state r) st new" by blast
  then have
    s1: "attempts st = new" and
    s2: "map parents new = ?pool" and
    s3: "set (offspring_pop st) = set (successes new)" and
    s4: "filter is_error (logged st) = error_records (mol_name E) new" and
    s5: "length (filter is_info (logged st)) = length ?pool" and
    s6: "counter st = fold (\<lambda>ps c. update_counter c ps) ?pool Map.empty" and
    s7: "sample_n (choice E) (funcs self) (weights self) r (length ?pool)
           = Inr (map func_data new, rng st)" and
    s8: "\<forall>a \<in> set new. \<exists>func. getattr E (name (func_data a)) = Inr func \<and>
           outcome a = func (fst (parents a)) (snd (parents a)) (params (func_data a))"
    by (simp_all add: loop_summary_def initial_state_def map_snd_enumerate1 length_enumerate1)
  have len: "length new = length ?pool"
    using s2 by (metis length_map)
  show "map parents (final_attempts res) = ?pool" using fa s1 s2 by simp
  show "set (returned res) = set (successes (final_attempts res)) - set population"
    using re fa s1 s3 by (simp add: set_population_minus)
  show "filter is_error (final_log res) = error_records (mol_name E) (final_attempts res)"
    using fl fa s1 s4 by simp
  show "length (filter is_info (final_log res)) = length (final_attempts res)"
    using fl fa s1 s5 len by simp
  show "count_of (final_counter res) m = occurrences m ?pool"
    using fc s6 by (simp add: count_of_pad count_of_fold count_of_empty)
  show "sample_n (choice E) (funcs self) (weights self) r (length (final_attempts res))
           = Inr (map func_data (final_attempts res), final_rng res)"
    using s7 fa fr s1 len by simp
  show "\<forall>a \<in> set (final_attempts res). \<exists>func. getattr E (name (func_data a)) = Inr func \<and>
           outcome a = func (fst (parents a)) (snd (parents a)) (params (func_data a))"
    using s8 fa s1 by simp
  show "plot_calls res = (if counter_path \<noteq> [] then [(final_counter res, counter_path)] else [])"
    using pc fc by simp
  show "dom (final_counter res) = set population \<union> fst ` set ?pool \<union> snd ` set ?pool"
    if "counter_path \<noteq> []"
    using that fc s6 by (auto simp: dom_pad_counter dom_fold_counter)
qed

subsection \<open>The claims about \<open>__call__\<close>\<close>

text \<open>
  Claim C1. The population that \<open>__call__\<close> returns is the set of the offspring of the
  successful invocations minus the members of the input population, so no member of
  the input population is in it. The attempts are those made on the pairs drawn, each
  with the result of the function invoked on it.
\<close>

theorem crossover_call_removes_population:
  assumes "crossover_call E self r population counter_path = Inr res"
  shows "set (returned res) = set (successes (final_attempts res)) - set population \<and>
         (\<forall>m \<in> set population. m \<notin> set (returned res)) \<and>
         map parents (final_attempts res) = islice (select E population) (num_crossovers self) \<and>
         (\<forall>a \<in> set (final_attempts res). \<exists>func. getattr E (name (func_data a)) = Inr func \<and>
            outcome a = func (fst (parents a)) (snd (parents a)) (params (func_data a)))"
proof -
  note s = crossover_call_summary [OF assms]
  from s(2) have "\<forall>m \<in> set population. m \<notin> set (returned res)" by blast
  with s(1) s(2) s(7) show ?thesis by blast
qed

text \<open>
  Claim C2. When sampling and lookup succeed, \<open>__call__\<close> returns whatever the crossover
  functions raise: every pair drawn is attempted, the \<open>error\<close> lines of the log are
  those of the failed attempts, in order, the outcome of an attempt is what the
  function invoked gave, the offspring of the attempts that returned are collected
  and returned (minus the input population), and a failed attempt adds nothing; if
  every invocation raises, the population returned is empty.
\<close>

theorem crossover_call_isolates_failures:
  assumes "dispatch_ok E self"
  shows "\<exists>res. crossover_call E self r population counter_path = Inr res \<and>
           map parents (final_attempts res) = islice (select E population) (num_crossovers self) \<and>
           filter is_error (final_log res) = error_records (mol_name E) (final_attempts res) \<and>
           (\<forall>a \<in> set (final_attempts res). \<exists>func. getattr E (name (func_data a)) = Inr func \<and>
              outcome a = func (fst (parents a)) (snd (parents a)) (params (func_data a))) \<and>
           set (returned res) = set (successes (final_attempts res)) - set population \<and>
           ((\<forall>a \<in> set (final_attempts res). failed a) \<longrightarrow> returned res = [])"
proof -
  from crossover_call_total [OF assms] obtain res where
    res: "crossover_call E self r population counter_path = Inr res" by blast
  note s = crossover_call_summary [OF res]
  have "returned res = []" if "\<forall>a \<in> set (final_attempts res). failed a"
  proof -
    from that have "successes (final_attempts res) = []"
      by (auto simp: successes_def failed_def split: sum.splits)
    with s(2) show ?thesis by simp
  qed
  with res s(1) s(3) s(7) s(2) show ?thesis by blast
qed

text \<open>
  Claim C3. When sampling and lookup succeed, \<open>__call__\<close> returns, also for a selection
  that never ends; the pairs attempted are the first \<open>num_crossovers\<close> pairs of the
  selection, so their number is the minimum of \<open>num_crossovers\<close> and the length of the
  selection, failed and successful attempts together, and one \<open>info\<close> line is logged
  for each.
\<close>

theorem crossover_call_attempts_bounded:
  assumes "dispatch_ok E self"
  shows "\<exists>res. crossover_call E self r population counter_path = Inr res \<and>
           map parents (final_attempts res) = islice (select E population) (num_crossovers self) \<and>
           enat (length (final_attempts res)) =
             min (enat (num_crossovers self)) (selection_length (select E population)) \<and>
           length (final_attempts res) \<le> num_crossovers self \<and>
           length (filter failed (final_attempts res)) +
             length (filter (\<lambda>a. \<not> failed a) (final_attempts res)) = length (final_attempts res) \<and>
           length (filter is_info (final_log res)) = length (final_attempts res)"
proof -
  from crossover_call_total [OF assms] obtain res where
    res: "crossover_call E self r population counter_path = Inr res" by blast
  note s = crossover_call_summary [OF res]
  have len: "length (final_attempts res) =
               length (islice (select E population) (num_crossovers self))"
    using s(1) by (metis length_map)
  have a: "enat (length (final_attempts res)) =
             min (enat (num_crossovers self)) (selection_length (select E population))"
    using len by (simp add: length_islice)
  have b: "length (final_attempts res) \<le> num_crossovers self"
    using len by (simp add: length_islice_le)
  have c: "length (filter failed (final_attempts res)) +
             length (filter (\<lambda>a. \<not> failed a) (final_attempts res)) = length (final_attempts res)"
    by (rule sum_length_filter_compl)
  from res s(1) a b c s(4) show ?thesis by blast
qed

text \<open>
  Claim C4. In a call that returns, the random generator was sampled once per attempt,
  each time on \<open>funcs\<close> with \<open>weights\<close>, and gave the \<open>FunctionData\<close> of the attempts in
  order; the function invoked in an attempt is the method that \<open>getattr\<close> finds under
  the name of the sampled \<open>FunctionData\<close>, applied to the two parents and to its
  \<open>params\<close>. With a sampler that returns elements of the list it is given, every
  \<open>FunctionData\<close> used is one of \<open>funcs\<close>.
\<close>

theorem crossover_call_invokes_sampled:
  assumes "crossover_call E self r population counter_path = Inr res"
  shows "sample_n (choice E) (funcs self) (weights self) r (length (final_attempts res))
           = Inr (map func_data (final_attempts res), final_rng res) \<and>
         map parents (final_attempts res) = islice (select E population) (num_crossovers self) \<and>
         (\<forall>a \<in> set (final_attempts res). \<exists>func. getattr E (name (func_data a)) = Inr func \<and>
            outcome a = func (fst (parents a)) (snd (parents a)) (params (func_data a))) \<and>
         ((\<forall>r0 fd r1. choice E r0 (funcs self) (weights self) = Inr (fd, r1) \<longrightarrow> fd \<in> set (funcs self))
            \<longrightarrow> (\<forall>a \<in> set (final_attempts res). func_data a \<in> set (funcs self)))"
proof -
  note s = crossover_call_summary [OF assms]
  have "\<forall>a \<in> set (final_attempts res). func_data a \<in> set (funcs self)"
    if c: "\<forall>r0 fd r1. choice E r0 (funcs self) (weights self) = Inr (fd, r1) \<longrightarrow> fd \<in> set (funcs self)"
  proof
    fix a assume "a \<in> set (final_attempts res)"
    then have "func_data a \<in> set (map func_data (final_attempts res))" by simp
    with sample_n_members [OF s(6)] obtain r1 r2 where
      "choice E r1 (funcs self) (weights self) = Inr (func_data a, r2)" by blast
    with c show "func_data a \<in> set (funcs self)" by blast
  qed
  with s(6) s(1) s(7) show ?thesis by blast
qed

text \<open>
  Claim C8. With an empty \<open>counter_path\<close> a call that returns has not called
  \<open>plot_counter\<close>; with a non-empty one it has called it exactly once, with
  \<open>counter_path\<close> and a counter that has every member of the input population as a
  key, with count 0 for every member that is in none of the pairs drawn.
\<close>

theorem crossover_call_plot_counter:
  assumes "crossover_call E self r population counter_path = Inr res"
  shows "(counter_path = [] \<longrightarrow> plot_calls res = []) \<and>
         (counter_path \<noteq> [] \<longrightarrow>
            (\<exists>c. plot_calls res = [(c, counter_path)] \<and>
                 set population \<subseteq> dom c \<and>
                 (\<forall>m \<in> set population.
                    (\<forall>p \<in> set (islice (select E population) (num_crossovers self)).
                       m \<noteq> fst p \<and> m \<noteq> snd p) \<longrightarrow> c m = Some 0)))"
proof -
  note s = crossover_call_summary [OF assms]
  let ?pool = "islice (select E population) (num_crossovers self)"
  have a: "counter_path = [] \<longrightarrow> plot_calls res = []" using s(8) by simp
  have b: "\<exists>c. plot_calls res = [(c, counter_path)] \<and> set population \<subseteq> dom c \<and>
             (\<forall>m \<in> set population.
                (\<forall>p \<in> set ?pool. m \<noteq> fst p \<and> m \<noteq> snd p) \<longrightarrow> c m = Some 0)"
    if ne: "counter_path \<noteq> []"
  proof -
    have p: "plot_calls res = [(final_counter res, counter_path)]" using s(8) ne by simp
    have d: "set population \<subseteq> dom (final_counter res)" using s(9) [OF ne] by blast
    have z: "final_counter res m = Some 0"
      if "m \<in> set population" "\<forall>p \<in> set ?pool. m \<noteq> fst p \<and> m \<noteq> snd p" for m
    proof -
      from that(2) have "occurrences m ?pool = 0" by (simp add: occurrences_0)
      with s(5) [of m] have "count_of (final_counter res) m = 0" by simp
      moreover from d that(1) obtain k where "final_counter res m = Some k" by blast
      ultimately show ?thesis by (simp add: count_of_def)
    qed
    from p d z show ?thesis by blast
  qed
  from a b show ?thesis by blast
qed

text \<open>
  Claim C9, as amended. In a call that returns, the count of a molecule is the number
  of its occurrences in the pairs drawn, whether the attempt on a pair failed or not;
  when no pair drawn holds the same molecule twice, this is the number of pairs drawn
  that contain the molecule.
\<close>

theorem crossover_call_counter_occurrences:
  assumes "crossover_call E self r population counter_path = Inr res"
  shows "map parents (final_attempts res) = islice (select E population) (num_crossovers self) \<and>
         count_of (final_counter res) m = occurrences m (map parents (final_attempts res)) \<and>
         ((\<forall>p \<in> set (map parents (final_attempts res)). fst p \<noteq> snd p) \<longrightarrow>
            count_of (final_counter res) m = pairs_containing m (map parents (final_attempts res)))"
proof -
  note s = crossover_call_summary [OF assms]
  from s(1) s(5) [of m]
  have a: "count_of (final_counter res) m = occurrences m (map parents (final_attempts res))"
    by simp
  with s(1) show ?thesis by (simp add: occurrences_pairs)
qed

subsection \<open>The properties of \<open>__call__\<close> at the concrete instance\<close>

lemmas ex_defs = crossover_call_def ex_env_def ex_self_def ex_sum_def ex_fail_def ex_choice_def
  ex_getattr_def enumerate1_def loop_body_def Let_def update_counter_def counter_incr_def
  add_members_def population_minus_def cache_log_def pad_counter_def

lemma ex_dispatch_ok:
  assumes "fs \<noteq> []" and "set fs \<subseteq> {ex_sum, ex_fail}"
  shows "dispatch_ok (ex_env sel) (ex_self fs n)"
proof -
  have "\<exists>fd r' func. ex_choice r fs (None :: real list option) = Inr (fd, r') \<and> ex_getattr (name fd) = Inr func"
    for r
  proof -
    from assms(1) have "fs ! (r mod length fs) \<in> set fs" by simp
    with assms(2) have "fs ! (r mod length fs) = ex_sum \<or> fs ! (r mod length fs) = ex_fail" by blast
    then have "\<exists>func. ex_getattr (name (fs ! (r mod length fs))) = Inr func"
      by (auto simp: ex_getattr_def ex_sum_def ex_fail_def)
    with assms(1) show ?thesis by (simp add: ex_choice_def)
  qed
  then show ?thesis by (simp add: dispatch_ok_def ex_env_def ex_self_def)
qed

lemma ex_mixed_run:
  "crossover_call (ex_env (Finite [(4, 5), (3, 4), (2, 3), (5, 5)]))
            (ex_self [ex_sum, ex_fail] 3) 0 [1, 2, 3, 4, 5] path = Inr res
   \<Longrightarrow> map parents (final_attempts res) = [(4, 5), (3, 4), (2, 3)] \<and>
       map func_data (final_attempts res) = [ex_sum, ex_fail, ex_sum] \<and>
       map outcome (final_attempts res) = [Inr [9, 4], Inl (Raised ''failed''), Inr [5, 2]] \<and>
       map failed (final_attempts res) = [False, True, False]"
  by (auto simp: ex_defs failed_def split: if_splits)

lemma ex_choice_member:
  assumes "ex_choice r0 fs w = Inr (fd, r1)"
  shows "fd \<in> set fs"
proof (cases "fs = []")
  case True
  with assms show ?thesis by (simp add: ex_choice_def)
next
  case False
  then have "fs ! (r0 mod length fs) \<in> set fs" by simp
  with assms False show ?thesis by (simp add: ex_choice_def)
qed

lemma ex_mixed_run_offspring:
  "crossover_call (ex_env (Finite [(4, 5), (3, 4), (2, 3), (5, 5)]))
            (ex_self [ex_sum, ex_fail] 3) 0 [1, 2, 3, 4, 5] path = Inr res
   \<Longrightarrow> successes (final_attempts res) = [9, 4, 5, 2] \<and> returned res = [9]"
  by (auto simp: ex_defs successes_def split: if_splits)

lemma ex_mixed_run_plot:
  "crossover_call (ex_env (Finite [(4, 5), (3, 4), (2, 3), (5, 5)]))
            (ex_self [ex_sum, ex_fail] 3) 0 [1, 2, 3, 4, 5] ''plot.png'' = Inr res
   \<Longrightarrow> fst (hd (plot_calls res)) 4 = Some 2"
  by (auto simp: ex_defs)

lemma ex_all_fail_run:
  "crossover_call (ex_env (Finite [(4, 5), (3, 4)])) (ex_self [ex_fail] 5) 0 [1, 2, 3, 4, 5] [] = Inr res
   \<Longrightarrow> map parents (final_attempts res) = [(4, 5), (3, 4)] \<and>
    map outcome (final_attempts res) = [Inl (Raised ''failed''), Inl (Raised ''failed'')] \<and>
    filter is_error (final_log res) =
       [Error ''fail'' [''mol'', ''mol''], Error ''fail'' [''mol'', ''mol'']] \<and>
    returned res = []"
  by (auto simp: ex_defs)

lemma upt_0_3: "[0..<3] = [0, 1, 2]"
  by (simp add: numeral_3_eq_3)

lemma ex_unbounded_run:
  "crossover_call (ex_env (Unbounded (\<lambda>i. (i, Suc i)))) (ex_self [ex_sum, ex_fail] 3) 0
          [1, 2, 3, 4, 5] [] = Inr res
   \<Longrightarrow> map parents (final_attempts res) = [(0, 1), (1, 2), (2, 3)] \<and>
       map failed (final_attempts res) = [False, True, False]"
  by (auto simp: ex_defs failed_def upt_0_3)

theorem crossover_call_removes_population_witness:
  "\<exists>res. crossover_call (ex_env (Finite [(4, 5), (3, 4), (2, 3), (5, 5)]))
            (ex_self [ex_sum, ex_fail] 3) 0 [1, 2, 3, 4, 5] ''plot.png'' = Inr res \<and>
         successes (final_attempts res) = [9, 4, 5, 2] \<and>
         returned res = [9] \<and>
         set (returned res) = set (successes (final_attempts res)) - set [1, 2, 3, 4, 5]"
proof -
  have "dispatch_ok (ex_env (Finite [(4, 5), (3, 4), (2, 3), (5, 5)])) (ex_self [ex_sum, ex_fail] 3)"
    by (rule ex_dispatch_ok) simp_all
  from crossover_call_total [OF this, of 0 "[1, 2, 3, 4, 5]" "''plot.png''"] obtain res where
    r: "crossover_call (ex_env (Finite [(4, 5), (3, 4), (2, 3), (5, 5)]))
            (ex_self [ex_sum, ex_fail] 3) 0 [1, 2, 3, 4, 5] ''plot.png'' = Inr res" ..
  note v = ex_mixed_run_offspring [OF r]
  from crossover_call_removes_population [OF r]
  have s: "set (returned res) = set (successes (final_attempts res)) - set [1, 2, 3, 4, 5]"
    by (elim conjE)
  show ?thesis
    by (intro conjI exI [of _ res]) (use r v s in simp_all)
qed

theorem crossover_call_isolates_failures_witness:
  "dispatch_ok (ex_env (Finite [(4, 5), (3, 4)])) (ex_self [ex_fail] 5) \<and>
   (\<exists>res. crossover_call (ex_env (Finite [(4, 5), (3, 4)])) (ex_self [ex_fail] 5) 0
             [1, 2, 3, 4, 5] [] = Inr res \<and>
          map parents (final_attempts res) = [(4, 5), (3, 4)] \<and>
          map outcome (final_attempts res) = [Inl (Raised ''failed''), Inl (Raised ''failed'')] \<and>
          filter is_error (final_log res) =
            [Error ''fail'' [''mol'', ''mol''], Error ''fail'' [''mol'', ''mol'']] \<and>
          returned res = [])"
proof -
  have d: "dispatch_ok (ex_env (Finite [(4, 5), (3, 4)])) (ex_self [ex_fail] 5)"
    by (rule ex_dispatch_ok) simp_all
  have "\<exists>res. crossover_call (ex_env (Finite [(4, 5), (3, 4)])) (ex_self [ex_fail] 5) 0
          [1, 2, 3, 4, 5] [] = Inr res"
    using crossover_call_isolates_failures [OF d, of 0 "[1, 2, 3, 4, 5]" "[]"]
    by (elim exE conjE) (rule exI)
  then obtain res where
    r: "crossover_call (ex_env (Finite [(4, 5), (3, 4)])) (ex_self [ex_fail] 5) 0
          [1, 2, 3, 4, 5] [] = Inr res" ..
  show ?thesis
    by (intro conjI exI [of _ res]) (use d r ex_all_fail_run [OF r] in simp_all)
qed

theorem crossover_call_attempts_bounded_witness:
  "dispatch_ok (ex_env (Unbounded (\<lambda>i. (i, Suc i)))) (ex_self [ex_sum, ex_fail] 3) \<and>
   (\<exists>res. crossover_call (ex_env (Unbounded (\<lambda>i. (i, Suc i)))) (ex_self [ex_sum, ex_fail] 3) 0
             [1, 2, 3, 4, 5] [] = Inr res \<and>
          map parents (final_attempts res) = [(0, 1), (1, 2), (2, 3)] \<and>
          map failed (final_attempts res) = [False, True, False] \<and>
          enat (length (final_attempts res)) =
            min (enat 3) (selection_length (Unbounded (\<lambda>i. (i, Suc i)) :: (nat \<times> nat) selection)))"
proof -
  have d: "dispatch_ok (ex_env (Unbounded (\<lambda>i. (i, Suc i)))) (ex_self [ex_sum, ex_fail] 3)"
    by (rule ex_dispatch_ok) simp_all
  have "\<exists>res. crossover_call (ex_env (Unbounded (\<lambda>i. (i, Suc i)))) (ex_self [ex_sum, ex_fail] 3) 0
          [1, 2, 3, 4, 5] [] = Inr res \<and>
          enat (length (final_attempts res)) =
            min (enat (num_crossovers (ex_self [ex_sum, ex_fail] 3)))
              (selection_length (select (ex_env (Unbounded (\<lambda>i. (i, Suc i)))) [1, 2, 3, 4, 5]))"
    using crossover_call_attempts_bounded [OF d, of 0 "[1, 2, 3, 4, 5]" "[]"]
    by (elim exE conjE) (intro exI conjI)
  then obtain res where
    r: "crossover_call (ex_env (Unbounded (\<lambda>i. (i, Suc i)))) (ex_self [ex_sum, ex_fail] 3) 0
          [1, 2, 3, 4, 5] [] = Inr res" and
    e: "enat (length (final_attempts res)) =
          min (enat (num_crossovers (ex_self [ex_sum, ex_fail] 3)))
            (selection_length (select (ex_env (Unbounded (\<lambda>i. (i, Suc i)))) [1, 2, 3, 4, 5]))"
    by (elim exE conjE)
  from e have e': "enat (length (final_attempts res)) =
            min (enat 3) (selection_length (Unbounded (\<lambda>i. (i, Suc i)) :: (nat \<times> nat) selection))"
    by (simp add: ex_env_def ex_self_def)
  show ?thesis
    by (intro conjI exI [of _ res]) (use d r e' ex_unbounded_run [OF r] in simp_all)
qed

theorem crossover_call_invokes_sampled_witness:
  "\<exists>res. crossover_call (ex_env (Finite [(4, 5), (3, 4), (2, 3), (5, 5)]))
            (ex_self [ex_sum, ex_fail] 3) 0 [1, 2, 3, 4, 5] [] = Inr res \<and>
         map func_data (final_attempts res) = [ex_sum, ex_fail, ex_sum] \<and>
         map outcome (final_attempts res) = [Inr [9, 4], Inl (Raised ''failed''), Inr [5, 2]] \<and>
         sample_n ex_choice [ex_sum, ex_fail] (None :: real list option) 0 3 =
           Inr (map func_data (final_attempts res), final_rng res) \<and>
         list_all (\<lambda>a. func_data a \<in> set [ex_sum, ex_fail]) (final_attempts res)"
proof -
  have "dispatch_ok (ex_env (Finite [(4, 5), (3, 4), (2, 3), (5, 5)])) (ex_self [ex_sum, ex_fail] 3)"
    by (rule ex_dispatch_ok) simp_all
  from crossover_call_total [OF this, of 0 "[1, 2, 3, 4, 5]" "[]"] obtain res where
    r: "crossover_call (ex_env (Finite [(4, 5), (3, 4), (2, 3), (5, 5)]))
            (ex_self [ex_sum, ex_fail] 3) 0 [1, 2, 3, 4, 5] [] = Inr res" ..
  note v = ex_mixed_run [OF r]
  from v have "length (map func_data (final_attempts res)) = 3" by simp
  then have l: "length (final_attempts res) = 3" by simp
  have c: "\<forall>r0 fd r1. choice (ex_env (Finite [(4, 5), (3, 4), (2, 3), (5, 5)])) r0
             (funcs (ex_self [ex_sum, ex_fail] 3)) (weights (ex_self [ex_sum, ex_fail] 3)) = Inr (fd, r1)
             \<longrightarrow> fd \<in> set (funcs (ex_self [ex_sum, ex_fail] 3))"
    by (auto simp: ex_env_def ex_self_def dest: ex_choice_member)
  note t = crossover_call_invokes_sampled [OF r]
  from t l have s: "sample_n ex_choice [ex_sum, ex_fail] (None :: real list option) 0 3 =
             Inr (map func_data (final_attempts res), final_rng res)"
    by (simp add: ex_env_def ex_self_def)
  from t c have "\<forall>a \<in> set (final_attempts res). func_data a \<in> set (funcs (ex_self [ex_sum, ex_fail] 3))"
    by (elim conjE impE) assumption+
  then have m: "list_all (\<lambda>a. func_data a \<in> set [ex_sum, ex_fail]) (final_attempts res)"
    by (simp add: list_all_iff ex_self_def)
  show ?thesis
    by (intro conjI exI [of _ res]) (use r v s m in simp_all)
qed

theorem crossover_call_plot_counter_witness:
  "\<exists>res. crossover_call (ex_env (Finite [(4, 5), (3, 4), (2, 3), (5, 5)]))
            (ex_self [ex_sum, ex_fail] 3) 0 [1, 2, 3, 4, 5] ''plot.png'' = Inr res \<and>
         (\<exists>c. plot_calls res = [(c, ''plot.png'')] \<and> set [1, 2, 3, 4, 5] \<subseteq> dom c \<and>
              c 1 = Some 0 \<and> c 4 = Some 2)"
proof -
  have "dispatch_ok (ex_env (Finite [(4, 5), (3, 4), (2, 3), (5, 5)])) (ex_self [ex_sum, ex_fail] 3)"
    by (rule ex_dispatch_ok) simp_all
  from crossover_call_total [OF this, of 0 "[1, 2, 3, 4, 5]" "''plot.png''"] obtain res where
    r: "crossover_call (ex_env (Finite [(4, 5), (3, 4), (2, 3), (5, 5)]))
            (ex_self [ex_sum, ex_fail] 3) 0 [1, 2, 3, 4, 5] ''plot.png'' = Inr res" ..
  have ne: "''plot.png'' \<noteq> []" by simp
  from crossover_call_plot_counter [OF r]
  have "''plot.png'' \<noteq> [] \<longrightarrow> (\<exists>c. plot_calls res = [(c, ''plot.png'')] \<and> set [1, 2, 3, 4, 5] \<subseteq> dom c \<and>
          (\<forall>m \<in> set [1, 2, 3, 4, 5].
             (\<forall>p \<in> set (islice (select (ex_env (Finite [(4, 5), (3, 4), (2, 3), (5, 5)])) [1, 2, 3, 4, 5])
                      (num_crossovers (ex_self [ex_sum, ex_fail] 3))). m \<noteq> fst p \<and> m \<noteq> snd p)
             \<longrightarrow> c m = Some 0))"
    by (rule conjunct2)
  from this ne
  have "\<exists>c. plot_calls res = [(c, ''plot.png'')] \<and> set [1, 2, 3, 4, 5] \<subseteq> dom c \<and>
          (\<forall>m \<in> set [1, 2, 3, 4, 5].
             (\<forall>p \<in> set (islice (select (ex_env (Finite [(4, 5), (3, 4), (2, 3), (5, 5)])) [1, 2, 3, 4, 5])
                      (num_crossovers (ex_self [ex_sum, ex_fail] 3))). m \<noteq> fst p \<and> m \<noteq> snd p)
             \<longrightarrow> c m = Some 0)"
    by (rule mp)
  then obtain c where
    p: "plot_calls res = [(c, ''plot.png'')]" and d: "set [1, 2, 3, 4, 5] \<subseteq> dom c" and
    z: "\<forall>m \<in> set [1, 2, 3, 4, 5].
          (\<forall>p \<in> set (islice (select (ex_env (Finite [(4, 5), (3, 4), (2, 3), (5, 5)])) [1, 2, 3, 4, 5])
                      (num_crossovers (ex_self [ex_sum, ex_fail] 3))). m \<noteq> fst p \<and> m \<noteq> snd p)
          \<longrightarrow> c m = Some 0"
    by (elim exE conjE)
  from z have c1: "c 1 = Some 0" by (simp add: ex_env_def ex_self_def)
  from ex_mixed_run_plot [OF r] p have c4: "c 4 = Some 2" by simp
  show ?thesis
    by (intro exI [of _ res] exI [of _ c] conjI) (use r p d c1 c4 in simp_all)
qed

theorem crossover_call_counter_occurrences_witness:
  "\<exists>res. crossover_call (ex_env (Finite [(4, 5), (3, 4), (2, 3), (5, 5)]))
            (ex_self [ex_sum, ex_fail] 3) 0 [1, 2, 3, 4, 5] [] = Inr res \<and>
         map parents (final_attempts res) = [(4, 5), (3, 4), (2, 3)] \<and>
         map failed (final_attempts res) = [False, True, False] \<and>
         count_of (final_counter res) 3 = 2 \<and>
         pairs_containing 3 (map parents (final_attempts res)) = 2"
proof -
  have "dispatch_ok (ex_env (Finite [(4, 5), (3, 4), (2, 3), (5, 5)])) (ex_self [ex_sum, ex_fail] 3)"
    by (rule ex_dispatch_ok) simp_all
  from crossover_call_total [OF this, of 0 "[1, 2, 3, 4, 5]" "[]"] obtain res where
    r: "crossover_call (ex_env (Finite [(4, 5), (3, 4), (2, 3), (5, 5)]))
            (ex_self [ex_sum, ex_fail] 3) 0 [1, 2, 3, 4, 5] [] = Inr res" ..
  note v = ex_mixed_run [OF r]
  from v have dis: "\<forall>p \<in> set (map parents (final_attempts res)). fst p \<noteq> snd p" by simp
  from v have pc: "pairs_containing 3 (map parents (final_attempts res)) = 2"
    by (simp add: pairs_containing_def)
  from crossover_call_counter_occurrences [OF r, of 3]
  have "(\<forall>p \<in> set (map parents (final_attempts res)). fst p \<noteq> snd p) \<longrightarrow>
          count_of (final_counter res) 3 = pairs_containing 3 (map parents (final_attempts res))"
    by (elim conjE)
  with dis pc have co: "count_of (final_counter res) 3 = 2" by simp
  show ?thesis
    by (intro conjI exI [of _ res]) (use r v co pc in simp_all)
qed

text \<open>
  Claim C9, as stated, fails for a pair that holds the same molecule twice: the pair
  \<open>(5, 5)\<close> is one pair drawn that contains 5, and the count of 5 is 2.
\<close>

theorem crossover_call_counts_pair_twice:
  "\<not> isl (crossover_call (ex_env (Finite [(5, 5)])) (ex_self [ex_sum] 1) 0 [5] []) \<and>
   map parents (final_attempts (projr
      (crossover_call (ex_env (Finite [(5, 5)])) (ex_self [ex_sum] 1) 0 [5] []))) = [(5, 5)] \<and>
   count_of (final_counter (projr
      (crossover_call (ex_env (Finite [(5, 5)])) (ex_self [ex_sum] 1) 0 [5] []))) 5 = 2 \<and>
   pairs_containing 5 [(5 :: nat, 5 :: nat)] = 1"
  by (simp add: ex_defs count_of_def pairs_containing_def)

end
